theory Spec2Isabelle
  imports Complex_Main "HOL-Library.Word" "HOL-Library.AList"
begin

section \<open>SETLyze: spot preference analysis\<close>

text \<open>
  A shallow embedding of the statistical core of SETLyze: the helpers of
  \<^verbatim>\<open>setlyze/std.py\<close> and the worker \<^verbatim>\<open>Start\<close> of
  \<^verbatim>\<open>setlyze/analysis/spot_preference.py\<close>. Python integers are \<open>int\<close>, a
  raised exception is the left summand of a sum type, the SQLite tables are lists of rows
  in a record that is passed along, and a Python 2 dictionary is an association list with
  distinct keys whose order is the order of iteration.
\<close>

datatype error = ValueError | KeyError | IndexError | AttributeError

subsection \<open>Spot coordinates (std.py)\<close>

definition rows :: "int list list" where
  "rows = [[1,2,3,4,5], [6,7,8,9,10], [11,12,13,14,15], [16,17,18,19,20], [21,22,23,24,25]]"

definition cols :: "int list list" where
  "cols = [[1,6,11,16,21], [2,7,12,17,22], [3,8,13,18,23], [4,9,14,19,24], [5,10,15,20,25]]"

text \<open>
  The two loops \<^verbatim>\<open>for row_num,row in enumerate(rows, start=1): if spot_num in row: ... break\<close>:
  the number of the first tuple that holds the spot. \<open>None\<close> stands for a loop that ends
  without \<^verbatim>\<open>break\<close>.
\<close>

fun enumerate_find :: "int \<Rightarrow> int list list \<Rightarrow> int \<Rightarrow> int option" where
  "enumerate_find spot_num [] num = None"
| "enumerate_find spot_num (r # rs) num =
     (if spot_num \<in> set r then Some num else enumerate_find spot_num rs (num + 1))"

text \<open>
  \<^verbatim>\<open>get_spot_coordinate(spot_num)\<close>. The range check raises \<^verbatim>\<open>ValueError\<close>. Past the
  check both loops break (lemma \<open>enumerate_find_rows_cols\<close> below), so the last case of
  the model, where Python would return the loop variable itself, is never taken.
\<close>

definition get_spot_coordinate :: "int \<Rightarrow> error + (int \<times> int)" where
  "get_spot_coordinate spot_num =
     (if \<not> (1 \<le> spot_num \<and> spot_num \<le> 25) then Inl ValueError
      else case (enumerate_find spot_num rows 1, enumerate_find spot_num cols 1) of
             (Some row, Some col) \<Rightarrow> Inr (row, col)
           | _ \<Rightarrow> Inl ValueError)"

text \<open>\<^verbatim>\<open>get_spot_position_difference(s1, s2)\<close>: returns \<^verbatim>\<open>(h,v)\<close>.\<close>

definition get_spot_position_difference :: "int \<Rightarrow> int \<Rightarrow> error + (int \<times> int)" where
  "get_spot_position_difference s1 s2 =
     (case get_spot_coordinate s1 of
        Inl e \<Rightarrow> Inl e
      | Inr c1 \<Rightarrow>
          (case get_spot_coordinate s2 of
             Inl e \<Rightarrow> Inl e
           | Inr c2 \<Rightarrow>
               (let v = \<bar>fst c1 - fst c2\<bar>;
                    h = \<bar>snd c1 - snd c2\<bar>
                in Inr (h, v))))"

text \<open>\<^verbatim>\<open>get_spots_from_record(record)\<close>: the numbers of the positive spots.\<close>

fun spots_from :: "int \<Rightarrow> int list \<Rightarrow> int list" where
  "spots_from i [] = []"
| "spots_from i (spot # record) =
     (if spot \<noteq> 0 then i # spots_from (i + 1) record else spots_from (i + 1) record)"

definition get_spots_from_record :: "int list \<Rightarrow> int list" where
  "get_spots_from_record record = spots_from 1 record"

subsection \<open>Plate areas (spot_preference.py)\<close>

datatype area = A | B | C | D

text \<open>
  The dictionary \<^verbatim>\<open>area2spots\<close>, written in the order of the literal. Python 2 iterates
  a dictionary in an order of its own, so the loops below take the items in the order
  \<open>a2s\<close> in which they are visited, and the theorems hold for every \<open>a2s\<close> that is a
  permutation of \<open>area2spots\<close>.
\<close>

definition area2spots :: "(area \<times> int list) list" where
  "area2spots =
     [(A, [1,5,21,25]),
      (B, [2,3,4,6,10,11,15,16,20,22,23,24]),
      (C, [7,8,9,12,14,17,18,19]),
      (D, [13])]"

text \<open>\<open>iteritems d xs\<close>: \<open>xs\<close> is an order in which the dictionary \<open>d\<close> may be iterated.\<close>

definition iteritems :: "('k \<times> 'v) list \<Rightarrow> ('k \<times> 'v) list \<Rightarrow> bool" where
  "iteritems d xs \<longleftrightarrow> distinct (map fst xs) \<and> set xs = set d"

text \<open>
  The inner loop of both totals computations:
  \<^verbatim>\<open>for area, area_spots in area2spots.iteritems(): if spot in area_spots: area_totals[area] += 1; break\<close>.
  The dictionary \<^verbatim>\<open>area_totals\<close> has the four keys \<^verbatim>\<open>'A'\<close> to \<^verbatim>\<open>'D'\<close>: a function on
  \<open>area\<close>.
\<close>

fun add_spot :: "(area \<times> int list) list \<Rightarrow> int \<Rightarrow> (area \<Rightarrow> int) \<Rightarrow> (area \<Rightarrow> int)" where
  "add_spot [] spot area_totals = area_totals"
| "add_spot ((area, area_spots) # rest) spot area_totals =
     (if spot \<in> set area_spots then area_totals(area := area_totals area + 1)
      else add_spot rest spot area_totals)"

text \<open>
  \<^verbatim>\<open>for spot, precence in enumerate(record[1:], start=1): if not precence: continue; ...\<close>
\<close>

fun count_spots ::
  "(area \<times> int list) list \<Rightarrow> int \<Rightarrow> int list \<Rightarrow> (area \<Rightarrow> int) \<Rightarrow> (area \<Rightarrow> int)" where
  "count_spots a2s spot [] area_totals = area_totals"
| "count_spots a2s spot (precence # record) area_totals =
     (if precence = 0 then count_spots a2s (spot + 1) record area_totals
      else count_spots a2s (spot + 1) record (add_spot a2s spot area_totals))"

subsection \<open>The local database\<close>

text \<open>
  A row of \<^verbatim>\<open>plate_area_totals_observed\<close> and of \<^verbatim>\<open>plate_area_totals_expected\<close>, and
  the three tables the analysis works on. A record of \<^verbatim>\<open>species_spots_1\<close> is the plate ID
  and the sequence of presence flags \<^verbatim>\<open>record[1:]\<close>.
\<close>

record totals_row =
  pla_id :: int
  area_a :: int
  area_b :: int
  area_c :: int
  area_d :: int

record localdb =
  species_spots_1 :: "(int \<times> int list) list"
  plate_area_totals_observed :: "totals_row list"
  plate_area_totals_expected :: "totals_row list"

definition totals_row_of :: "int \<Rightarrow> (area \<Rightarrow> int) \<Rightarrow> totals_row" where
  "totals_row_of p area_totals =
     \<lparr>pla_id = p, area_a = area_totals A, area_b = area_totals B,
      area_c = area_totals C, area_d = area_totals D\<rparr>"

text \<open>The loop \<^verbatim>\<open>for record in cursor\<close> of \<^verbatim>\<open>set_plate_area_totals_observed\<close>.\<close>

fun fill_observed ::
  "(area \<times> int list) list \<Rightarrow> (int \<times> int list) list \<Rightarrow> totals_row list \<Rightarrow> totals_row list" where
  "fill_observed a2s [] tbl = tbl"
| "fill_observed a2s (record # cursor) tbl =
     (let area_totals = count_spots a2s 1 (snd record) (\<lambda>_. 0)
      in fill_observed a2s cursor (tbl @ [totals_row_of (fst record) area_totals]))"

text \<open>
  \<^verbatim>\<open>Start.set_plate_area_totals_observed\<close>: empties the table, then inserts a row for
  each record of \<^verbatim>\<open>species_spots_1\<close>.
\<close>

definition set_plate_area_totals_observed :: "(area \<times> int list) list \<Rightarrow> localdb \<Rightarrow> localdb" where
  "set_plate_area_totals_observed a2s db =
     db\<lparr>plate_area_totals_observed := fill_observed a2s (species_spots_1 db) []\<rparr>"

text \<open>The column of a row that holds the total of an area.\<close>

fun row_total :: "totals_row \<Rightarrow> area \<Rightarrow> int" where
  "row_total row A = area_a row"
| "row_total row B = area_b row"
| "row_total row C = area_c row"
| "row_total row D = area_d row"

text \<open>
  For the statements below: how many of the cells \<open>cells\<close> are occupied in a record, whose
  flag for cell \<open>s\<close> is its element \<open>s - 1\<close>.
\<close>

definition occupied :: "int list \<Rightarrow> int \<Rightarrow> bool" where
  "occupied flags s \<longleftrightarrow> 1 \<le> s \<and> s \<le> int (length flags) \<and> flags ! nat (s - 1) \<noteq> 0"

definition occupied_among :: "int list \<Rightarrow> int list \<Rightarrow> nat" where
  "occupied_among flags cells = length (filter (occupied flags) cells)"

subsection \<open>Totals and probabilities of the user defined plate areas\<close>

text \<open>
  Modelled from the spec: \<^verbatim>\<open>get_area_totals\<close> of \<^verbatim>\<open>setlyze/database.py\<close> is not among the
  sources. The spec (4.4, step 1) has it pull the per-plate positive-cell counts for a
  region group from a totals table, as a flat sequence with one value per plate: for each
  row, the sum of the totals of the areas that are in the group.
\<close>

definition get_area_totals :: "totals_row list \<Rightarrow> area list \<Rightarrow> int list" where
  "get_area_totals tbl area_group =
     map (\<lambda>row. sum_list (map (row_total row) (filter (\<lambda>X. X \<in> set area_group) [A, B, C, D]))) tbl"

text \<open>
  \<^verbatim>\<open>for x in xs: d[key] += x\<close> on a dictionary: reading a key that is absent raises
  \<^verbatim>\<open>KeyError\<close>.
\<close>

fun accumulate :: "('k \<times> 'v::plus) list \<Rightarrow> 'k \<Rightarrow> 'v list \<Rightarrow> error + ('k \<times> 'v) list" where
  "accumulate d key [] = Inr d"
| "accumulate d key (x # xs) =
     (case map_of d key of
        None \<Rightarrow> Inl KeyError
      | Some v \<Rightarrow> accumulate (AList.update key (v + x) d) key xs)"

text \<open>
  \<^verbatim>\<open>for area_name, area_group in areas_definition.iteritems(): ...\<close>, where \<open>values\<close> gives
  the sequence that the inner loop adds up for a group.
\<close>

fun accumulate_areas ::
  "('g \<Rightarrow> 'v::plus list) \<Rightarrow> (string \<times> 'g) list \<Rightarrow> (string \<times> 'v) list \<Rightarrow> error + (string \<times> 'v) list" where
  "accumulate_areas values [] d = Inr d"
| "accumulate_areas values ((area_name, area_group) # rest) d =
     (case accumulate d area_name (values area_group) of
        Inl e \<Rightarrow> Inl e
      | Inr d' \<Rightarrow> accumulate_areas values rest d')"

text \<open>
  \<^verbatim>\<open>delete = [area for area in d if area not in areas_definition]\<close>, then
  \<^verbatim>\<open>del d[area]\<close> for each of them.
\<close>

definition remove_unused :: "(string \<times> 'g) list \<Rightarrow> (string \<times> 'v) list \<Rightarrow> (string \<times> 'v) list" where
  "remove_unused areas_definition d = AList.restrict (set (map fst areas_definition)) d"

text \<open>
  \<^verbatim>\<open>Start.get_defined_areas_totals_observed\<close>. The argument \<open>areas_definition\<close> is the
  configuration value \<^verbatim>\<open>plate-areas-definition\<close>, its items in the order of iteration.
\<close>

definition get_defined_areas_totals_observed ::
  "(string \<times> area list) list \<Rightarrow> localdb \<Rightarrow> error + (string \<times> int) list" where
  "get_defined_areas_totals_observed areas_definition db =
     (case accumulate_areas (get_area_totals (plate_area_totals_observed db)) areas_definition
             [(''area1'', 0), (''area2'', 0), (''area3'', 0), (''area4'', 0)] of
        Inl e \<Rightarrow> Inl e
      | Inr areas_totals_observed \<Rightarrow> Inr (remove_unused areas_definition areas_totals_observed))"

text \<open>
  \<^verbatim>\<open>Start.get_area_probabilities\<close>. The floats \<^verbatim>\<open>4/25.0\<close> to \<^verbatim>\<open>1/25.0\<close> and their sums
  are taken exactly.
\<close>

fun probabilities :: "area \<Rightarrow> real" where
  "probabilities A = 4 / 25"
| "probabilities B = 12 / 25"
| "probabilities C = 8 / 25"
| "probabilities D = 1 / 25"

definition get_area_probabilities :: "(string \<times> area list) list \<Rightarrow> error + (string \<times> real) list" where
  "get_area_probabilities areas_definition =
     (case accumulate_areas (map probabilities) areas_definition
             [(''area1'', 0), (''area2'', 0), (''area3'', 0), (''area4'', 0)] of
        Inl e \<Rightarrow> Inl e
      | Inr area_probabilities \<Rightarrow> Inr (remove_unused areas_definition area_probabilities))"

subsection \<open>The report (std.py)\<close>

text \<open>
  The values that are written to a report: integers and strings. \<open>py_str\<close> is Python's
  \<^verbatim>\<open>str\<close>, the decimal numeral for an integer.
\<close>

datatype pyval = IntV int | StrV string

fun digits :: "nat \<Rightarrow> string" where
  "digits n = (if n < 10 then [''0123456789'' ! n] else digits (n div 10) @ [''0123456789'' ! (n mod 10)])"

declare digits.simps [simp del]

fun py_str :: "pyval \<Rightarrow> string" where
  "py_str (IntV i) = (if i < 0 then CHR ''-'' # digits (nat (- i)) else digits (nat i))"
| "py_str (StrV s) = s"

text \<open>\<^verbatim>\<open>s.strip()\<close>, for the whitespace of ASCII.\<close>

definition isspace :: "char \<Rightarrow> bool" where
  "isspace c \<longleftrightarrow> c \<in> set [CHR '' '', CHR 0x09, CHR 0x0A, CHR 0x0B, CHR 0x0C, CHR 0x0D]"

definition strip :: "string \<Rightarrow> string" where
  "strip s = rev (dropWhile isspace (rev (dropWhile isspace s)))"

text \<open>
  The nodes of \<^verbatim>\<open>xml.dom.minidom\<close> that the report uses: an element with its qualified
  name, its attributes and its child nodes, and a text node with its data.
\<close>

datatype node = Element string "(string \<times> string) list" "node list" | Text string

fun childNodes :: "node \<Rightarrow> node list" where
  "childNodes (Element name attributes children) = children"
| "childNodes (Text data) = []"

fun appendChild :: "node \<Rightarrow> node \<Rightarrow> node" where
  "appendChild (Element name attributes children) child = Element name attributes (children @ [child])"
| "appendChild (Text data) child = Text data"

text \<open>The local name of a qualified name: what follows its first colon, if it has one.\<close>

definition localName :: "string \<Rightarrow> string" where
  "localName name =
     (if CHR '':'' \<in> set name then tl (dropWhile (\<lambda>c. c \<noteq> CHR '':'') name) else name)"

text \<open>\<^verbatim>\<open>e.nodeType == e.ELEMENT_NODE and e.localName == name\<close>\<close>

fun is_element :: "string \<Rightarrow> node \<Rightarrow> bool" where
  "is_element name (Element qname attributes children) \<longleftrightarrow> localName qname = name"
| "is_element name (Text data) \<longleftrightarrow> False"

text \<open>\<^verbatim>\<open>e.getAttribute(key)\<close> is the empty string for an attribute that is not set.\<close>

fun getAttribute :: "node \<Rightarrow> string \<Rightarrow> string" where
  "getAttribute (Element name attributes children) key =
     (case map_of attributes key of None \<Rightarrow> [] | Some val \<Rightarrow> val)"
| "getAttribute (Text data) key = []"

text \<open>\<^verbatim>\<open>e.nodeValue\<close> is the data of a text node and \<^verbatim>\<open>None\<close> for an element.\<close>

fun nodeValue :: "node \<Rightarrow> string option" where
  "nodeValue (Text data) = Some data"
| "nodeValue (Element name attributes children) = None"

text \<open>
  \<^verbatim>\<open>ReportGenerator.create_element\<close>, without its first step: the new element is returned
  and the caller below appends it to its parent.
\<close>

definition create_element ::
  "string \<Rightarrow> (string \<times> pyval) list \<Rightarrow> (string \<times> pyval) list \<Rightarrow> pyval option \<Rightarrow> node" where
  "create_element name child_elements attributes text =
     Element name
       (fold (\<lambda>(key, val). AList.update key (py_str val)) attributes [])
       (map (\<lambda>(key, val). Element key [] [Text (py_str val)]) child_elements
        @ (case text of None \<Rightarrow> [] | Some t \<Rightarrow> [Text (py_str t)]))"

text \<open>The top element that \<^verbatim>\<open>ReportGenerator.__init__\<close> creates.\<close>

definition new_report :: node where
  "new_report = Element ''setlyze:report'' [(''xmlns:setlyze'', ''http://www.gimaris.com/setlyze/'')] []"

text \<open>
  \<^verbatim>\<open>ReportGenerator.set_area_totals_observed(totals_observed)\<close>, on the top element
  \<open>report\<close>: an element \<^verbatim>\<open>area_totals_observed\<close> with one child \<^verbatim>\<open>area\<close> for each item.
\<close>

definition set_area_totals_observed :: "node \<Rightarrow> (string \<times> pyval) list \<Rightarrow> node" where
  "set_area_totals_observed report totals_observed =
     (let species_totals_element = create_element ''area_totals_observed'' [] [] None
      in appendChild report
           (fold (\<lambda>(area, total) parent.
                    appendChild parent (create_element ''area'' [] [(''id'', StrV area)] (Some total)))
              totals_observed species_totals_element))"

text \<open>
  \<^verbatim>\<open>ReportReader.get_element(self.doc, name)\<close>: the first child element of the top element
  with that local name.
\<close>

definition get_element :: "node \<Rightarrow> string \<Rightarrow> node option" where
  "get_element report name = find (is_element name) (childNodes report)"

text \<open>
  The loop of \<^verbatim>\<open>ReportReader.get_area_totals_observed\<close>:
  \<^verbatim>\<open>totals[e.getAttribute("id")] = e.childNodes[0].nodeValue.strip()\<close> for each child
  element \<^verbatim>\<open>area\<close>.
\<close>

fun read_totals :: "node list \<Rightarrow> (string \<times> pyval) list \<Rightarrow> error + (string \<times> pyval) list" where
  "read_totals [] totals = Inr totals"
| "read_totals (e # es) totals =
     (if is_element ''area'' e then
        (case childNodes e of
           [] \<Rightarrow> Inl IndexError
         | c # _ \<Rightarrow>
             (case nodeValue c of
                None \<Rightarrow> Inl AttributeError
              | Some data \<Rightarrow>
                  read_totals es (AList.update (getAttribute e ''id'') (StrV (strip data)) totals)))
      else read_totals es totals)"

text \<open>
  \<^verbatim>\<open>ReportReader.get_area_totals_observed\<close>; it returns \<^verbatim>\<open>None\<close> when the element is
  missing. Its docstring gives a dictionary of numbers as the example of what it returns
  (\<^verbatim>\<open>'area1': 24.64\<close>); the values it returns are the stripped texts.
\<close>

definition get_area_totals_observed :: "node \<Rightarrow> error + (string \<times> pyval) list option" where
  "get_area_totals_observed report =
     (case get_element report ''area_totals_observed'' of
        None \<Rightarrow> Inr None
      | Some area_totals \<Rightarrow>
          (case read_totals (childNodes area_totals) [] of
             Inl e \<Rightarrow> Inl e
           | Inr totals \<Rightarrow> Inr (Some totals)))"

subsection \<open>Random spots for a plate (std.py)\<close>

text \<open>
  \<^verbatim>\<open>get_random_for_plate(n)\<close> is \<^verbatim>\<open>random.sample(xrange(1,26), n)\<close>. The function
  \<^verbatim>\<open>sample\<close> below is the method \<^verbatim>\<open>Random.sample\<close> of the \<^verbatim>\<open>random\<close> module of Python 2, with
  the generator made explicit: \<^verbatim>\<open>random.random()\<close> returns a float \<open>w / 2 ^ 53\<close> for a 53-bit
  number \<open>w\<close>, so a generator is the sequence \<open>g\<close> of these numbers and the state is the
  position \<open>pos\<close> of the next one. \<^verbatim>\<open>_int(random() * n)\<close> is taken exactly.
\<close>

type_synonym rng = "nat \<Rightarrow> 53 word"

definition random_below :: "rng \<Rightarrow> nat \<Rightarrow> nat \<Rightarrow> nat" where
  "random_below g pos n = unat (g pos) * n div 2 ^ 53"

text \<open>\<^verbatim>\<open>_ceil(_log(m, 4))\<close>: the least \<open>e\<close> with \<open>m \<le> 4 ^ e\<close>.\<close>

fun ceil_log4 :: "nat \<Rightarrow> nat" where
  "ceil_log4 m = (if m \<le> 1 then 0 else Suc (ceil_log4 ((m + 3) div 4)))"

declare ceil_log4.simps [simp del]

text \<open>\<^verbatim>\<open>setsize = 21; if k > 5: setsize += 4 ** _ceil(_log(k * 3, 4))\<close>\<close>

definition setsize :: "nat \<Rightarrow> nat" where
  "setsize k = 21 + (if k > 5 then 4 ^ ceil_log4 (k * 3) else 0)"

text \<open>
  The first branch of \<^verbatim>\<open>sample\<close>, for \<open>i\<close> in \<^verbatim>\<open>xrange(k)\<close> with \<open>todo\<close> rounds left:
  \<^verbatim>\<open>j = _int(random() * (n-i)); result[i] = pool[j]; pool[j] = pool[n-i-1]\<close>.
\<close>

fun sample_pool :: "rng \<Rightarrow> nat \<Rightarrow> nat \<Rightarrow> 'a list \<Rightarrow> nat \<Rightarrow> nat \<Rightarrow> 'a list \<times> nat" where
  "sample_pool g n i pool 0 pos = ([], pos)"
| "sample_pool g n i pool (Suc todo) pos =
     (let j = random_below g pos (n - i);
          (result, pos') = sample_pool g n (Suc i) (pool[j := pool ! (n - i - 1)]) todo (Suc pos)
      in (pool ! j # result, pos'))"

text \<open>
  The second branch draws until the index is new:
  \<^verbatim>\<open>j = _int(random() * n); while j in selected: j = _int(random() * n)\<close>.
  Nothing bounds the number of rounds, so the result is an option: \<open>None\<close> when the loop
  does not end.
\<close>

partial_function (option) draw_unselected :: "rng \<Rightarrow> nat \<Rightarrow> nat list \<Rightarrow> nat \<Rightarrow> (nat \<times> nat) option" where
  "draw_unselected g n selected pos =
     (if random_below g pos n \<in> set selected then draw_unselected g n selected (Suc pos)
      else Some (random_below g pos n, Suc pos))"

text \<open>\<^verbatim>\<open>for i in xrange(k): ...; selected_add(j); result[i] = population[j]\<close>\<close>

fun sample_set :: "rng \<Rightarrow> 'a list \<Rightarrow> nat list \<Rightarrow> nat \<Rightarrow> nat \<Rightarrow> ('a list \<times> nat) option" where
  "sample_set g population selected 0 pos = Some ([], pos)"
| "sample_set g population selected (Suc todo) pos =
     (case draw_unselected g (length population) selected pos of
        None \<Rightarrow> None
      | Some (j, pos') \<Rightarrow>
          (case sample_set g population (j # selected) todo pos' of
             None \<Rightarrow> None
           | Some (result, pos'') \<Rightarrow> Some (population ! j # result, pos'')))"

text \<open>
  \<^verbatim>\<open>Random.sample(population, k)\<close>: \<^verbatim>\<open>ValueError\<close> unless \<^verbatim>\<open>0 <= k <= n\<close>, then one of the two
  branches. It returns the sample and the position of the generator after it.
\<close>

definition sample :: "rng \<Rightarrow> 'a list \<Rightarrow> int \<Rightarrow> nat \<Rightarrow> (error + 'a list \<times> nat) option" where
  "sample g population k pos =
     (let n = length population in
      if \<not> (0 \<le> k \<and> k \<le> int n) then Some (Inl ValueError)
      else if n \<le> setsize (nat k) then Some (Inr (sample_pool g n 0 population (nat k) pos))
      else map_option Inr (sample_set g population [] (nat k) pos))"

definition get_random_for_plate :: "rng \<Rightarrow> int \<Rightarrow> nat \<Rightarrow> (error + int list \<times> nat) option" where
  "get_random_for_plate g n pos = sample g [1..25] n pos"

text \<open>
  A generator is fair for \<open>n\<close> when, from every position on, every index below \<open>n\<close> is
  drawn again at some time. The second branch of \<^verbatim>\<open>sample\<close> ends on such a generator.
\<close>

definition fair :: "rng \<Rightarrow> nat \<Rightarrow> bool" where
  "fair g n \<longleftrightarrow> (\<forall>pos v. v < n \<longrightarrow> (\<exists>d. random_below g (pos + d) n = v))"

text \<open>An example of a generator: it draws the indices 0 to 24 in turn.\<close>

definition cycle_rng :: rng where
  "cycle_rng pos = word_of_nat ((pos mod 25) * 360287970189640)"

subsection \<open>The expected totals (spot_preference.py)\<close>

text \<open>\<^verbatim>\<open>for spot in random_spots: ...\<close>, with the inner loop \<open>add_spot\<close>.\<close>

fun count_random :: "(area \<times> int list) list \<Rightarrow> int list \<Rightarrow> (area \<Rightarrow> int) \<Rightarrow> (area \<Rightarrow> int)" where
  "count_random a2s [] area_totals = area_totals"
| "count_random a2s (spot # random_spots) area_totals =
     count_random a2s random_spots (add_spot a2s spot area_totals)"

text \<open>
  The loop \<^verbatim>\<open>for pla_id, area_a, area_b, area_c, area_d in cursor\<close> of
  \<^verbatim>\<open>set_plate_area_totals_expected\<close>, over the rows of the observed table.
\<close>

fun fill_expected ::
  "rng \<Rightarrow> (area \<times> int list) list \<Rightarrow> totals_row list \<Rightarrow> totals_row list \<Rightarrow> nat
   \<Rightarrow> (error + totals_row list \<times> nat) option" where
  "fill_expected g a2s [] tbl pos = Some (Inr (tbl, pos))"
| "fill_expected g a2s (row # cursor) tbl pos =
     (let n_spots = area_a row + area_b row + area_c row + area_d row
      in case get_random_for_plate g n_spots pos of
           None \<Rightarrow> None
         | Some (Inl e) \<Rightarrow> Some (Inl e)
         | Some (Inr (random_spots, pos')) \<Rightarrow>
             (let area_totals = count_random a2s random_spots (\<lambda>_. 0)
              in fill_expected g a2s cursor (tbl @ [totals_row_of (pla_id row) area_totals]) pos'))"

text \<open>
  \<^verbatim>\<open>Start.set_plate_area_totals_expected\<close>: empties the expected table, then inserts a row
  for each row of the observed table.
\<close>

definition set_plate_area_totals_expected ::
  "rng \<Rightarrow> (area \<times> int list) list \<Rightarrow> localdb \<Rightarrow> nat \<Rightarrow> (error + localdb \<times> nat) option" where
  "set_plate_area_totals_expected g a2s db pos =
     (case fill_expected g a2s (plate_area_totals_observed db) [] pos of
        None \<Rightarrow> None
      | Some (Inl e) \<Rightarrow> Some (Inl e)
      | Some (Inr (tbl, pos')) \<Rightarrow> Some (Inr (db\<lparr>plate_area_totals_expected := tbl\<rparr>, pos')))"

section \<open>Properties\<close>

subsection \<open>Spot coordinates\<close>

lemma spot_cases:
  assumes "1 \<le> (n::int)" "n \<le> 25"
  shows "n \<in> set [1,2,3,4,5,6,7,8,9,10,11,12,13,14,15,16,17,18,19,20,21,22,23,24,25]"
  using assms by simp arith

lemma enumerate_find_rows_cols:
  assumes "1 \<le> n" "n \<le> 25"
  shows "enumerate_find n rows 1 = Some ((n - 1) div 5 + 1)"
    and "enumerate_find n cols 1 = Some ((n - 1) mod 5 + 1)"
  using spot_cases [OF assms] by (auto simp: rows_def cols_def)

lemma get_spot_coordinate_eq:
  assumes "1 \<le> n" "n \<le> 25"
  shows "get_spot_coordinate n = Inr ((n - 1) div 5 + 1, (n - 1) mod 5 + 1)"
  using assms by (simp add: get_spot_coordinate_def enumerate_find_rows_cols)

subsection \<open>Plate areas\<close>

lemma area2spots_cells: "set (concat (map snd area2spots)) = {1..25}"
proof
  show "set (concat (map snd area2spots)) \<subseteq> {1..25}"
    by (auto simp: area2spots_def)
next
  show "{1..25} \<subseteq> set (concat (map snd area2spots))"
  proof
    fix n :: int
    assume "n \<in> {1..25}"
    then have "1 \<le> n" "n \<le> 25" by simp_all
    from spot_cases [OF this] show "n \<in> set (concat (map snd area2spots))"
      by (auto simp: area2spots_def)
  qed
qed

lemma area2spots_distinct: "distinct (concat (map snd area2spots))"
  by (simp add: area2spots_def)

lemma area2spots_disjoint:
  assumes "(X, xs) \<in> set area2spots" "(Y, ys) \<in> set area2spots" "s \<in> set xs" "s \<in> set ys"
  shows "X = Y"
  using assms by (auto simp: area2spots_def)

lemma area2spots_keys: "distinct (map fst area2spots)"
  by (simp add: area2spots_def)

lemma area2spots_covers:
  assumes "1 \<le> s" "s \<le> 25"
  shows "\<exists>X xs. (X, xs) \<in> set area2spots \<and> s \<in> set xs"
proof -
  from assms have "s \<in> {1..25}" by simp
  then have "s \<in> set (concat (map snd area2spots))"
    by (simp only: area2spots_cells)
  then obtain item where "item \<in> set area2spots" "s \<in> set (snd item)"
    by auto
  then show ?thesis
    by (intro exI [of _ "fst item"] exI [of _ "snd item"]) simp
qed

lemma add_spot_other:
  "X \<notin> fst ` set a2s \<Longrightarrow> add_spot a2s s tot X = tot X"
  by (induction a2s s tot rule: add_spot.induct) auto

lemma add_spot_value:
  assumes "distinct (map fst a2s)"
    and "\<And>Y ys Z zs. (Y, ys) \<in> set a2s \<Longrightarrow> (Z, zs) \<in> set a2s \<Longrightarrow>
           s \<in> set ys \<Longrightarrow> s \<in> set zs \<Longrightarrow> Y = Z"
    and "(X, xs) \<in> set a2s"
  shows "add_spot a2s s tot X = tot X + (if s \<in> set xs then 1 else 0)"
  using assms
proof (induction a2s)
  case Nil
  then show ?case by simp
next
  case (Cons item rest)
  obtain Y ys where item: "item = (Y, ys)" by (cases item)
  have keys: "Y \<notin> fst ` set rest" "distinct (map fst rest)"
    using Cons.prems(1) by (simp_all add: item)
  show ?case
  proof (cases "(X, xs) = (Y, ys)")
    case True
    with keys(1) show ?thesis
      by (simp add: item add_spot_other)
  next
    case False
    with Cons.prems(3) have mem: "(X, xs) \<in> set rest"
      by (auto simp: item)
    with keys(1) have neq: "X \<noteq> Y" by force
    show ?thesis
    proof (cases "s \<in> set ys")
      case True
      have "s \<notin> set xs"
      proof
        assume "s \<in> set xs"
        from Cons.prems(2) [of X xs Y ys] this True mem have "X = Y"
          by (simp add: item)
        with neq show False by simp
      qed
      with True neq show ?thesis by (simp add: item)
    next
      case False
      have "add_spot rest s tot X = tot X + (if s \<in> set xs then 1 else 0)"
      proof (rule Cons.IH [OF keys(2) _ mem])
        fix Y' ys' Z zs
        assume "(Y', ys') \<in> set rest" "(Z, zs) \<in> set rest" "s \<in> set ys'" "s \<in> set zs"
        then show "Y' = Z"
          using Cons.prems(2) [of Y' ys' Z zs] by simp
      qed
      with False show ?thesis by (simp add: item)
    qed
  qed
qed

lemma add_spot_iteritems:
  assumes "iteritems area2spots a2s" "(X, xs) \<in> set area2spots"
  shows "add_spot a2s s tot X = tot X + (if s \<in> set xs then 1 else 0)"
proof (rule add_spot_value)
  show "distinct (map fst a2s)"
    using assms(1) by (simp add: iteritems_def)
  show "(X, xs) \<in> set a2s"
    using assms by (simp add: iteritems_def)
  fix Y ys Z zs
  assume "(Y, ys) \<in> set a2s" "(Z, zs) \<in> set a2s" "s \<in> set ys" "s \<in> set zs"
  then show "Y = Z"
    using assms(1) area2spots_disjoint [of Y ys Z zs s] by (simp add: iteritems_def)
qed

lemma every_area_listed: "\<exists>xs. (X, xs) \<in> set area2spots"
  by (cases X) (auto simp: area2spots_def)

lemma add_spot_update:
  assumes "iteritems area2spots a2s" "(X, xs) \<in> set area2spots" "s \<in> set xs"
  shows "add_spot a2s s tot = tot(X := tot X + 1)"
proof
  fix Z
  obtain zs where Z: "(Z, zs) \<in> set area2spots"
    using every_area_listed by blast
  have val: "add_spot a2s s tot Z = tot Z + (if s \<in> set zs then 1 else 0)"
    by (rule add_spot_iteritems [OF assms(1) Z])
  show "add_spot a2s s tot Z = (tot(X := tot X + 1)) Z"
  proof (cases "Z = X")
    case True
    with Z assms(2) area2spots_keys have "zs = xs"
      by (metis eq_key_imp_eq_value)
    with val True assms(3) show ?thesis by simp
  next
    case False
    with area2spots_disjoint [OF Z assms(2) _ assms(3)] have "s \<notin> set zs"
      by blast
    with val False show ?thesis by simp
  qed
qed

subsection \<open>Counting the occupied cells of a record\<close>

lemma spots_from_lower: "s \<in> set (spots_from k ps) \<Longrightarrow> k \<le> s"
  by (induction ps arbitrary: k) (fastforce split: if_splits)+

lemma spots_from_distinct: "distinct (spots_from k ps)"
proof (induction ps arbitrary: k)
  case Nil
  then show ?case by simp
next
  case (Cons p ps)
  have "k \<notin> set (spots_from (k + 1) ps)"
    using spots_from_lower [of k "k + 1" ps] by auto
  with Cons show ?case by simp
qed

lemma spots_from_length: "length (spots_from k ps) = length (filter (\<lambda>p. p \<noteq> 0) ps)"
  by (induction ps arbitrary: k) simp_all

lemma spots_from_set:
  "set (spots_from k ps) = {s. k \<le> s \<and> s < k + int (length ps) \<and> ps ! nat (s - k) \<noteq> 0}"
proof (induction ps arbitrary: k)
  case Nil
  then show ?case by auto
next
  case (Cons p ps)
  have shift: "(p # ps) ! nat (s - k) = ps ! nat (s - (k + 1))" if "k + 1 \<le> s" for s
  proof -
    from that have "nat (s - k) = Suc (nat (s - (k + 1)))" by simp
    then show ?thesis by simp
  qed
  have "{s. k \<le> s \<and> s < k + int (length (p # ps)) \<and> (p # ps) ! nat (s - k) \<noteq> 0}
      = (if p \<noteq> 0 then {k} else {})
        \<union> {s. k + 1 \<le> s \<and> s < k + 1 + int (length ps) \<and> ps ! nat (s - (k + 1)) \<noteq> 0}"
    (is "?L = ?R")
  proof
    show "?L \<subseteq> ?R"
    proof
      fix s assume s: "s \<in> ?L"
      show "s \<in> ?R"
      proof (cases "s = k")
        case True
        with s show ?thesis by simp
      next
        case False
        with s have "k + 1 \<le> s" by simp
        with s shift [OF this] show ?thesis by simp
      qed
    qed
  next
    show "?R \<subseteq> ?L"
    proof
      fix s assume s: "s \<in> ?R"
      show "s \<in> ?L"
      proof (cases "s = k")
        case True
        with s show ?thesis by (auto split: if_splits)
      next
        case False
        with s have "k + 1 \<le> s" by (auto split: if_splits)
        with s False shift [OF this] show ?thesis by (auto split: if_splits)
      qed
    qed
  qed
  with Cons [of "k + 1"] show ?case by auto
qed

lemma get_spots_from_record_occupied:
  "set (get_spots_from_record flags) = {s. occupied flags s}"
  by (auto simp: get_spots_from_record_def spots_from_set occupied_def)

lemma occupied_among_spots:
  assumes "distinct cells"
  shows "occupied_among flags cells
         = length (filter (\<lambda>s. s \<in> set cells) (get_spots_from_record flags))"
proof -
  have "occupied_among flags cells = card ({s. occupied flags s} \<inter> set cells)"
    using assms by (simp add: occupied_among_def distinct_length_filter)
  also have "\<dots> = card ({s. s \<in> set cells} \<inter> set (get_spots_from_record flags))"
    by (simp add: get_spots_from_record_occupied Int_commute)
  also have "\<dots> = length (filter (\<lambda>s. s \<in> set cells) (get_spots_from_record flags))"
    by (simp add: distinct_length_filter get_spots_from_record_def spots_from_distinct)
  finally show ?thesis .
qed

lemma count_spots_value:
  assumes "iteritems area2spots a2s" "(X, xs) \<in> set area2spots"
  shows "count_spots a2s k ps tot X
         = tot X + int (length (filter (\<lambda>s. s \<in> set xs) (spots_from k ps)))"
proof (induction ps arbitrary: k tot)
  case Nil
  then show ?case by simp
next
  case (Cons p ps)
  then show ?case
    by (simp add: add_spot_iteritems [OF assms])
qed

lemma areas_split_length:
  assumes "\<forall>s \<in> set l. 1 \<le> s \<and> s \<le> 25"
  shows "length (filter (\<lambda>s. s \<in> set [1,5,21,25]) l)
       + length (filter (\<lambda>s. s \<in> set [2,3,4,6,10,11,15,16,20,22,23,24]) l)
       + length (filter (\<lambda>s. s \<in> set [7,8,9,12,14,17,18,19]) l)
       + length (filter (\<lambda>s. s \<in> set [13]) l) = length (l :: int list)"
  using assms
proof (induction l)
  case Nil
  then show ?case by simp
next
  case (Cons s l)
  then have "1 \<le> s" "s \<le> 25" by simp_all
  from spot_cases [OF this] Cons show ?case by auto
qed

lemma count_spots_sum:
  assumes "iteritems area2spots a2s" "length flags \<le> 25"
  shows "count_spots a2s 1 flags (\<lambda>_. 0) A + count_spots a2s 1 flags (\<lambda>_. 0) B
       + count_spots a2s 1 flags (\<lambda>_. 0) C + count_spots a2s 1 flags (\<lambda>_. 0) D
       = int (length (filter (\<lambda>p. p \<noteq> 0) flags))"
proof -
  have range: "\<forall>s \<in> set (spots_from 1 flags). 1 \<le> s \<and> s \<le> 25"
    using assms(2) by (auto simp: spots_from_set)
  have "(A, [1,5,21,25]) \<in> set area2spots"
    "(B, [2,3,4,6,10,11,15,16,20,22,23,24]) \<in> set area2spots"
    "(C, [7,8,9,12,14,17,18,19]) \<in> set area2spots"
    "(D, [13]) \<in> set area2spots"
    by (simp_all add: area2spots_def)
  note vals = this [THEN count_spots_value [OF assms(1)], of 1 flags "\<lambda>_. 0"]
  show ?thesis
    unfolding vals using areas_split_length [OF range]
    by (simp only: spots_from_length [symmetric, of flags 1] of_nat_add [symmetric] add_0)
qed

lemma fill_observed_map:
  "fill_observed a2s cursor tbl
   = tbl @ map (\<lambda>record. totals_row_of (fst record) (count_spots a2s 1 (snd record) (\<lambda>_. 0))) cursor"
  by (induction cursor arbitrary: tbl) (simp_all add: Let_def)

lemma row_total_row_of: "row_total (totals_row_of p tot) X = tot X"
  by (cases X) (simp_all add: totals_row_of_def)

lemma area2spots_item_distinct: "(X, xs) \<in> set area2spots \<Longrightarrow> distinct xs"
  by (auto simp: area2spots_def)

lemma observed_row_correct:
  fixes p :: int and a2s flags
  assumes "iteritems area2spots a2s" "length flags \<le> 25"
  defines "row \<equiv> totals_row_of p (count_spots a2s 1 flags (\<lambda>_. 0))"
  shows "pla_id row = p"
    and "(X, xs) \<in> set area2spots \<Longrightarrow> row_total row X = int (occupied_among flags xs)"
    and "area_a row + area_b row + area_c row + area_d row
         = int (length (filter (\<lambda>p. p \<noteq> 0) flags))"
proof -
  show "pla_id row = p"
    by (simp add: row_def totals_row_of_def)
  show "row_total row X = int (occupied_among flags xs)" if "(X, xs) \<in> set area2spots"
    using that
    by (simp add: row_def row_total_row_of count_spots_value [OF assms(1)]
        occupied_among_spots area2spots_item_distinct get_spots_from_record_def)
  show "area_a row + area_b row + area_c row + area_d row
        = int (length (filter (\<lambda>p. p \<noteq> 0) flags))"
    using count_spots_sum [OF assms(1,2)] by (simp add: row_def totals_row_of_def)
qed

text \<open>
  C4. The membership table \<open>area2spots\<close> is a partition of the cells 1 to 25: the four
  lists have 4, 12, 8 and 1 cells, no cell occurs twice in them, and together they hold
  exactly the cells 1 to 25. So every cell lies in exactly one area, and in whatever
  order the dictionary is iterated the first-match loop adds one to the total of that
  area and to no other.
\<close>

theorem area2spots_partition:
  assumes "iteritems area2spots a2s" "1 \<le> s" "s \<le> 25"
  shows "map (\<lambda>item. (fst item, length (snd item))) area2spots = [(A, 4), (B, 12), (C, 8), (D, 1)]
       \<and> distinct (concat (map snd area2spots))
       \<and> set (concat (map snd area2spots)) = {1..25}
       \<and> (\<exists>X xs. (X, xs) \<in> set area2spots \<and> s \<in> set xs
             \<and> (\<forall>Y ys. (Y, ys) \<in> set area2spots \<and> s \<in> set ys \<longrightarrow> Y = X)
             \<and> add_spot a2s s tot = tot(X := tot X + 1))"
proof -
  obtain X xs where X: "(X, xs) \<in> set area2spots" "s \<in> set xs"
    using area2spots_covers [OF assms(2,3)] by blast
  have "\<forall>Y ys. (Y, ys) \<in> set area2spots \<and> s \<in> set ys \<longrightarrow> Y = X"
    using area2spots_disjoint [OF _ X(1) _ X(2)] by blast
  moreover have "add_spot a2s s tot = tot(X := tot X + 1)"
    by (rule add_spot_update [OF assms(1) X])
  moreover have "map (\<lambda>item. (fst item, length (snd item))) area2spots
                 = [(A, 4), (B, 12), (C, 8), (D, 1)]"
    by (simp add: area2spots_def)
  ultimately show ?thesis
    using X area2spots_distinct area2spots_cells by blast
qed

theorem area2spots_partition_witness:
  "iteritems area2spots area2spots \<and> (1::int) \<le> 13 \<and> (13::int) \<le> 25
   \<and> set (concat (map snd area2spots)) = {1..25}
   \<and> (\<exists>X xs. (X, xs) \<in> set area2spots \<and> 13 \<in> set xs
         \<and> (\<forall>Y ys. (Y, ys) \<in> set area2spots \<and> 13 \<in> set ys \<longrightarrow> Y = X)
         \<and> add_spot area2spots 13 (\<lambda>_. 0) = (\<lambda>_. 0)(X := 1))"
proof -
  have h: "iteritems area2spots area2spots"
    by (simp add: iteritems_def area2spots_def)
  from area2spots_partition [OF h, of 13 "\<lambda>_. 0"] h show ?thesis by simp
qed

text \<open>
  C8. For a cell \<open>n\<close> from 1 to 25, \<open>get_spot_coordinate\<close> returns its row and column in
  the 5 by 5 plate, counted from 1 in row-major order; cell 1 is at (1,1) and cell 14 at
  (3,4). \<open>get_spot_position_difference\<close> returns the absolute differences of the two
  coordinates, the horizontal one (columns) first and the vertical one (rows) second; for
  the cells 1 and 25 it returns (4,4). Both are functions of their arguments alone.
\<close>

theorem spot_coordinate_row_major:
  assumes "1 \<le> n" "n \<le> 25" "1 \<le> m" "m \<le> 25"
  shows "get_spot_coordinate n = Inr ((n - 1) div 5 + 1, (n - 1) mod 5 + 1)
       \<and> get_spot_coordinate 1 = Inr (1, 1)
       \<and> get_spot_coordinate 14 = Inr (3, 4)
       \<and> get_spot_position_difference n m
           = Inr (\<bar>(n - 1) mod 5 - (m - 1) mod 5\<bar>, \<bar>(n - 1) div 5 - (m - 1) div 5\<bar>)
       \<and> get_spot_position_difference 1 25 = Inr (4, 4)"
  using assms
  by (simp add: get_spot_position_difference_def get_spot_coordinate_eq)

theorem spot_coordinate_row_major_witness:
  "(1::int) \<le> 9 \<and> (9::int) \<le> 25 \<and> (1::int) \<le> 25 \<and> (25::int) \<le> 25
   \<and> get_spot_coordinate 9 = Inr (2, 4)
   \<and> get_spot_position_difference 9 25 = Inr (1, 3)"
  using spot_coordinate_row_major [of 9 25] by simp

text \<open>
  C1. \<open>set_plate_area_totals_observed\<close> writes one row for each record of
  \<open>species_spots_1\<close>, in the order of the records. For a record of a plate ID and 25
  presence flags the row carries the plate ID, the count of each area is the number of
  occupied cells of the record among the cells of that area, and the four counts add up
  to the number of occupied cells of the record. This holds in whatever order the
  dictionary \<open>area2spots\<close> is iterated.
\<close>

theorem set_plate_area_totals_observed_counts:
  assumes "iteritems area2spots a2s"
    and "\<forall>record \<in> set (species_spots_1 db). length (snd record) = 25"
  shows "list_all2
           (\<lambda>record row.
              pla_id row = fst record
              \<and> (\<forall>item \<in> set area2spots.
                    row_total row (fst item) = int (occupied_among (snd record) (snd item)))
              \<and> area_a row + area_b row + area_c row + area_d row
                  = int (length (filter (\<lambda>p. p \<noteq> 0) (snd record))))
           (species_spots_1 db)
           (plate_area_totals_observed (set_plate_area_totals_observed a2s db))"
proof -
  have "list_all2
           (\<lambda>record row.
              pla_id row = fst record
              \<and> (\<forall>item \<in> set area2spots.
                    row_total row (fst item) = int (occupied_among (snd record) (snd item)))
              \<and> area_a row + area_b row + area_c row + area_d row
                  = int (length (filter (\<lambda>p. p \<noteq> 0) (snd record))))
           cursor
           (map (\<lambda>record. totals_row_of (fst record) (count_spots a2s 1 (snd record) (\<lambda>_. 0)))
              cursor)"
    if "\<forall>record \<in> set cursor. length (snd record) = 25" for cursor
    using that
  proof (induction cursor)
    case Nil
    then show ?case by simp
  next
    case (Cons r cursor)
    have len: "length (snd r) \<le> 25"
      using Cons.prems by simp
    note row = observed_row_correct [OF assms(1) len, where p = "fst r"]
    have "\<forall>item \<in> set area2spots.
            row_total (totals_row_of (fst r) (count_spots a2s 1 (snd r) (\<lambda>_. 0)))
              (fst item) = int (occupied_among (snd r) (snd item))"
      using row(2) by auto
    with row(1,3) Cons show ?case by simp
  qed
  from this [OF assms(2)] show ?thesis
    by (simp add: set_plate_area_totals_observed_def fill_observed_map)
qed

theorem set_plate_area_totals_observed_counts_witness:
  "iteritems area2spots area2spots
   \<and> map (\<lambda>record. length (snd record))
        [(4567::int, [1,1,0,0,1,0,0,0,0,0,0,0,1,0,0,0,0,0,0,0,0,0,0,0,0::int])] = [25]
   \<and> plate_area_totals_observed (set_plate_area_totals_observed area2spots
        \<lparr>species_spots_1 = [(4567, [1,1,0,0,1,0,0,0,0,0,0,0,1,0,0,0,0,0,0,0,0,0,0,0,0])],
         plate_area_totals_observed = [], plate_area_totals_expected = []\<rparr>)
     = [\<lparr>pla_id = 4567, area_a = 2, area_b = 1, area_c = 0, area_d = 1\<rparr>]
   \<and> list_all2
        (\<lambda>record row.
           pla_id row = fst record
           \<and> (\<forall>item \<in> set area2spots.
                 row_total row (fst item) = int (occupied_among (snd record) (snd item)))
           \<and> area_a row + area_b row + area_c row + area_d row
               = int (length (filter (\<lambda>p. p \<noteq> 0) (snd record))))
        [(4567, [1,1,0,0,1,0,0,0,0,0,0,0,1,0,0,0,0,0,0,0,0,0,0,0,0])]
        [\<lparr>pla_id = 4567, area_a = 2, area_b = 1, area_c = 0, area_d = 1\<rparr>]"
proof -
  have h: "iteritems area2spots area2spots"
    by (simp add: iteritems_def area2spots_def)
  have row: "plate_area_totals_observed (set_plate_area_totals_observed area2spots
        \<lparr>species_spots_1 = [(4567, [1,1,0,0,1,0,0,0,0,0,0,0,1,0,0,0,0,0,0,0,0,0,0,0,0])],
         plate_area_totals_observed = [], plate_area_totals_expected = []\<rparr>)
     = [\<lparr>pla_id = 4567, area_a = 2, area_b = 1, area_c = 0, area_d = 1\<rparr>]"
    by (simp add: set_plate_area_totals_observed_def totals_row_of_def area2spots_def)
  from set_plate_area_totals_observed_counts [OF h,
      of "\<lparr>species_spots_1 = [(4567, [1,1,0,0,1,0,0,0,0,0,0,0,1,0,0,0,0,0,0,0,0,0,0,0,0])],
         plate_area_totals_observed = [], plate_area_totals_expected = []\<rparr>"]
  show ?thesis
    unfolding row using h by simp
qed

subsection \<open>Totals and probabilities of the user defined plate areas\<close>

lemma accumulate_absent:
  "map_of d key = None \<Longrightarrow> accumulate d key xs = (if xs = [] then Inr d else Inl KeyError)"
  by (cases xs) simp_all

lemma accumulate_present:
  fixes v :: "'v::monoid_add"
  assumes "map_of d key = Some v"
  shows "\<exists>d'. accumulate d key xs = Inr d' \<and> map fst d' = map fst d
              \<and> map_of d' = (map_of d)(key \<mapsto> v + sum_list xs)"
  using assms
proof (induction xs arbitrary: d v)
  case Nil
  then show ?case by (auto simp: fun_upd_idem_iff)
next
  case (Cons x xs)
  have key: "key \<in> set (map fst d)"
    using Cons.prems by (metis map_of_eq_None_iff option.distinct(1) set_map)
  have "map_of (AList.update key (v + x) d) key = Some (v + x)"
    by (simp add: update_conv')
  from Cons.IH [OF this] obtain d' where d':
    "accumulate (AList.update key (v + x) d) key xs = Inr d'"
    "map fst d' = map fst (AList.update key (v + x) d)"
    "map_of d' = (map_of (AList.update key (v + x) d))(key \<mapsto> v + x + sum_list xs)"
    by blast
  from d' key Cons.prems show ?case
    by (auto simp: update_keys update_conv' add.assoc)
qed

lemma accumulate_areas_KeyError:
  fixes d :: "(string \<times> 'v::monoid_add) list"
  assumes "(area_name, area_group) \<in> set items" "area_name \<notin> set (map fst d)"
    and "values area_group \<noteq> []"
  shows "accumulate_areas values items d = Inl KeyError"
  using assms
proof (induction items arbitrary: d)
  case Nil
  then show ?case by simp
next
  case (Cons item items)
  obtain n g where item: "item = (n, g)" by (cases item)
  show ?case
  proof (cases "map_of d n")
    case None
    show ?thesis
    proof (cases "values g = []")
      case True
      with Cons.prems have "(area_name, area_group) \<in> set items"
        by (auto simp: item)
      from Cons.IH [OF this Cons.prems(2,3)] None True show ?thesis
        by (simp add: item accumulate_absent)
    next
      case False
      with None show ?thesis by (simp add: item accumulate_absent)
    qed
  next
    case (Some v)
    from accumulate_present [OF Some, of "values g"] obtain d' where d':
      "accumulate d n (values g) = Inr d'" "map fst d' = map fst d"
      by blast
    have "n \<in> set (map fst d)"
      using Some by (metis map_of_eq_None_iff option.distinct(1) set_map)
    with Cons.prems have "(area_name, area_group) \<in> set items"
      by (auto simp: item)
    from Cons.IH [OF this, of d'] Cons.prems(2,3) d' show ?thesis
      by (simp add: item)
  qed
qed

lemma accumulate_areas_sums:
  fixes d :: "(string \<times> 'v::monoid_add) list"
  assumes "distinct (map fst items)" "set (map fst items) \<subseteq> set (map fst d)"
  shows "\<exists>d'. accumulate_areas values items d = Inr d' \<and> map fst d' = map fst d
              \<and> (\<forall>k. map_of d' k =
                    (case map_of items k of
                       None \<Rightarrow> map_of d k
                     | Some g \<Rightarrow> map_option (\<lambda>v. v + sum_list (values g)) (map_of d k)))"
  using assms
proof (induction items arbitrary: d)
  case Nil
  then show ?case by simp
next
  case (Cons item items)
  obtain n g where item: "item = (n, g)" by (cases item)
  from Cons.prems(2) have "n \<in> set (map fst d)" by (simp add: item)
  then obtain v where v: "map_of d n = Some v"
    by (metis map_of_eq_None_iff not_Some_eq set_map)
  from accumulate_present [OF v, of "values g"] obtain d1 where d1:
    "accumulate d n (values g) = Inr d1" "map fst d1 = map fst d"
    "map_of d1 = (map_of d)(n \<mapsto> v + sum_list (values g))"
    by blast
  have "distinct (map fst items)" "set (map fst items) \<subseteq> set (map fst d1)"
    using Cons.prems by (simp_all add: item d1(2))
  from Cons.IH [OF this] obtain d' where d':
    "accumulate_areas values items d1 = Inr d'" "map fst d' = map fst d1"
    "\<forall>k. map_of d' k =
       (case map_of items k of
          None \<Rightarrow> map_of d1 k
        | Some g \<Rightarrow> map_option (\<lambda>v. v + sum_list (values g)) (map_of d1 k))"
    by blast
  have notin: "map_of items n = None"
    using Cons.prems(1) by (simp add: item map_of_eq_None_iff)
  have "map_of d' k =
       (case map_of (item # items) k of
          None \<Rightarrow> map_of d k
        | Some g \<Rightarrow> map_option (\<lambda>v. v + sum_list (values g)) (map_of d k))" for k
    using d'(3) d1(3) v notin by (auto simp: item split: option.splits)
  with d'(1,2) d1(1,2) show ?case
    by (simp add: item)
qed

lemma area_group_sum:
  "sum_list (map f (filter (\<lambda>X. X \<in> set area_group) [A, B, C, D])) = sum f (set area_group)"
proof -
  have univ: "set [A, B, C, D] = UNIV"
  proof -
    have "X \<in> set [A, B, C, D]" for X by (cases X) simp_all
    then show ?thesis by blast
  qed
  have "set (filter (\<lambda>X. X \<in> set area_group) [A, B, C, D]) = set area_group"
    by (simp only: set_filter univ) simp
  moreover have "distinct (filter (\<lambda>X. X \<in> set area_group) [A, B, C, D])"
    by simp
  ultimately show ?thesis
    by (metis sum_list_distinct_conv_sum_set)
qed

lemma get_area_totals_sum:
  "get_area_totals tbl area_group = map (\<lambda>row. sum (row_total row) (set area_group)) tbl"
  by (simp only: get_area_totals_def area_group_sum)

lemma map_of_present:
  assumes "k \<in> set (map fst d)"
  obtains v where "map_of d k = Some v"
  using assms by (metis map_of_eq_None_iff not_Some_eq set_map)

text \<open>
  C7, as amended. When the plate areas definition is a dictionary whose names are among
  \<^verbatim>\<open>area1\<close> to \<^verbatim>\<open>area4\<close>, \<open>get_defined_areas_totals_observed\<close> returns a dictionary
  whose keys are exactly the names of the definition, and the value of each name is the
  sum, over the rows of the observed table, of the totals of the areas in its group.
\<close>

theorem get_defined_areas_totals_observed_sums:
  assumes "distinct (map fst areas_definition)"
    and "set (map fst areas_definition) \<subseteq> {''area1'', ''area2'', ''area3'', ''area4''}"
  shows "\<exists>totals. get_defined_areas_totals_observed areas_definition db = Inr totals
           \<and> distinct (map fst totals)
           \<and> set (map fst totals) = set (map fst areas_definition)
           \<and> (\<forall>item \<in> set areas_definition.
                 map_of totals (fst item)
                 = Some (\<Sum>row\<leftarrow>plate_area_totals_observed db. sum (row_total row) (set (snd item))))"
proof -
  let ?d0 = "[(''area1'', 0::int), (''area2'', 0), (''area3'', 0), (''area4'', 0)]"
  let ?tbl = "plate_area_totals_observed db"
  have keys0: "set (map fst areas_definition) \<subseteq> set (map fst ?d0)"
    using assms(2) by simp
  from accumulate_areas_sums [OF assms(1) keys0, of "get_area_totals ?tbl"]
  obtain d' where d':
    "accumulate_areas (get_area_totals ?tbl) areas_definition ?d0 = Inr d'"
    "map fst d' = map fst ?d0"
    "\<And>k. map_of d' k =
       (case map_of areas_definition k of
          None \<Rightarrow> map_of ?d0 k
        | Some g \<Rightarrow> map_option (\<lambda>v. v + sum_list (get_area_totals ?tbl g)) (map_of ?d0 k))"
    by blast
  let ?totals = "remove_unused areas_definition d'"
  have res: "get_defined_areas_totals_observed areas_definition db = Inr ?totals"
    by (simp add: get_defined_areas_totals_observed_def d'(1))
  have dist: "distinct (map fst ?totals)"
    unfolding remove_unused_def by (rule distinct_restr) (simp add: d'(2))
  have "fst ` set ?totals = fst ` set d' \<inter> set (map fst areas_definition)"
    by (simp add: remove_unused_def)
  also have "fst ` set d' = set (map fst ?d0)"
    using d'(2) by (metis set_map)
  finally have keys: "set (map fst ?totals) = set (map fst areas_definition)"
    using keys0 by auto
  have vals: "map_of ?totals (fst item)
              = Some (\<Sum>row\<leftarrow>?tbl. sum (row_total row) (set (snd item)))"
    if item: "item \<in> set areas_definition" for item
  proof -
    have "map_of areas_definition (fst item) = Some (snd item)"
      using assms(1) item by simp
    moreover have "fst item \<in> set (map fst ?d0)"
      using keys0 item by auto
    then have "map_of ?d0 (fst item) = Some 0"
      by auto
    ultimately have "map_of d' (fst item) = Some (sum_list (get_area_totals ?tbl (snd item)))"
      by (simp add: d'(3))
    moreover have "fst item \<in> set (map fst areas_definition)"
      using item by simp
    ultimately show ?thesis
      by (simp add: remove_unused_def get_area_totals_sum)
  qed
  from res dist keys vals show ?thesis by blast
qed

theorem get_defined_areas_totals_observed_sums_witness:
  "distinct (map fst [(''area1'', [A]), (''area2'', [B]), (''area3'', [C, D])])
   \<and> set (map fst [(''area1'', [A]), (''area2'', [B]), (''area3'', [C, D])])
       \<subseteq> {''area1'', ''area2'', ''area3'', ''area4''}
   \<and> get_defined_areas_totals_observed [(''area1'', [A]), (''area2'', [B]), (''area3'', [C, D])]
        \<lparr>species_spots_1 = [],
         plate_area_totals_observed =
           [\<lparr>pla_id = 1, area_a = 2, area_b = 1, area_c = 0, area_d = 0\<rparr>,
            \<lparr>pla_id = 2, area_a = 0, area_b = 3, area_c = 2, area_d = 1\<rparr>],
         plate_area_totals_expected = []\<rparr>
     = Inr [(''area1'', 2), (''area2'', 4), (''area3'', 3)]"
proof -
  have h1: "distinct (map fst [(''area1'', [A]), (''area2'', [B]), (''area3'', [C, D])])"
    by simp
  have h2: "set (map fst [(''area1'', [A]), (''area2'', [B]), (''area3'', [C, D])])
       \<subseteq> {''area1'', ''area2'', ''area3'', ''area4''}"
    by simp
  have "get_defined_areas_totals_observed [(''area1'', [A]), (''area2'', [B]), (''area3'', [C, D])]
        \<lparr>species_spots_1 = [],
         plate_area_totals_observed =
           [\<lparr>pla_id = 1, area_a = 2, area_b = 1, area_c = 0, area_d = 0\<rparr>,
            \<lparr>pla_id = 2, area_a = 0, area_b = 3, area_c = 2, area_d = 1\<rparr>],
         plate_area_totals_expected = []\<rparr>
     = Inr [(''area1'', 2), (''area2'', 4), (''area3'', 3)]"
    by (simp add: get_defined_areas_totals_observed_def get_area_totals_def remove_unused_def
        AList.restrict_eq)
  with get_defined_areas_totals_observed_sums [OF h1 h2] h1 h2 show ?thesis
    by blast
qed

text \<open>
  The claim C7 as stated, for every plate areas definition, fails: a definition with a
  name other than \<^verbatim>\<open>area1\<close> to \<^verbatim>\<open>area4\<close> makes the accumulation raise \<^verbatim>\<open>KeyError\<close> as
  soon as the observed table has a row, and no dictionary is returned.
\<close>

theorem get_defined_areas_totals_observed_counterexample:
  "get_defined_areas_totals_observed [(''corners'', [A]), (''rest'', [B, C, D])]
     \<lparr>species_spots_1 = [],
      plate_area_totals_observed = [\<lparr>pla_id = 1, area_a = 2, area_b = 1, area_c = 0, area_d = 0\<rparr>],
      plate_area_totals_expected = []\<rparr>
   = Inl KeyError"
  by (simp add: get_defined_areas_totals_observed_def get_area_totals_def)

text \<open>
  C10, as amended. A plate areas definition that gives at least one area to a name other
  than \<^verbatim>\<open>area1\<close> to \<^verbatim>\<open>area4\<close> makes \<open>get_area_probabilities\<close> raise \<^verbatim>\<open>KeyError\<close>, and
  makes \<open>get_defined_areas_totals_observed\<close> raise \<^verbatim>\<open>KeyError\<close> whenever the observed
  table has at least one row.
\<close>

theorem undefined_area_name_KeyError:
  assumes "(area_name, area_group) \<in> set areas_definition"
    and "area_name \<notin> {''area1'', ''area2'', ''area3'', ''area4''}"
    and "area_group \<noteq> []"
  shows "get_area_probabilities areas_definition = Inl KeyError
       \<and> (plate_area_totals_observed db \<noteq> []
            \<longrightarrow> get_defined_areas_totals_observed areas_definition db = Inl KeyError)"
proof -
  have "accumulate_areas (map probabilities) areas_definition
          [(''area1'', 0), (''area2'', 0), (''area3'', 0), (''area4'', 0)] = Inl KeyError"
    by (rule accumulate_areas_KeyError [OF assms(1)]) (use assms(2,3) in simp_all)
  moreover have "accumulate_areas (get_area_totals (plate_area_totals_observed db)) areas_definition
          [(''area1'', 0), (''area2'', 0), (''area3'', 0), (''area4'', 0)] = Inl KeyError"
    if "plate_area_totals_observed db \<noteq> []"
    by (rule accumulate_areas_KeyError [OF assms(1)])
      (use assms(2) that in \<open>simp_all add: get_area_totals_def\<close>)
  ultimately show ?thesis
    by (simp add: get_area_probabilities_def get_defined_areas_totals_observed_def)
qed

theorem undefined_area_name_KeyError_witness:
  "(''corners'', [A]) \<in> set [(''corners'', [A]), (''rest'', [B, C, D])]
   \<and> ''corners'' \<notin> {''area1'', ''area2'', ''area3'', ''area4''}
   \<and> [A] \<noteq> []
   \<and> get_area_probabilities [(''corners'', [A]), (''rest'', [B, C, D])] = Inl KeyError
   \<and> plate_area_totals_observed
        \<lparr>species_spots_1 = [],
         plate_area_totals_observed = [\<lparr>pla_id = 1, area_a = 2, area_b = 1, area_c = 0, area_d = 0\<rparr>],
         plate_area_totals_expected = []\<rparr> \<noteq> []
   \<and> get_defined_areas_totals_observed [(''corners'', [A]), (''rest'', [B, C, D])]
        \<lparr>species_spots_1 = [],
         plate_area_totals_observed = [\<lparr>pla_id = 1, area_a = 2, area_b = 1, area_c = 0, area_d = 0\<rparr>],
         plate_area_totals_expected = []\<rparr>
      = Inl KeyError"
  using undefined_area_name_KeyError [of "''corners''" "[A]" "[(''corners'', [A]), (''rest'', [B, C, D])]"
      "\<lparr>species_spots_1 = [],
         plate_area_totals_observed = [\<lparr>pla_id = 1, area_a = 2, area_b = 1, area_c = 0, area_d = 0\<rparr>],
         plate_area_totals_expected = []\<rparr>"]
  by simp

text \<open>
  The claim C10 as stated fails for the totals: with an empty observed table the inner
  loop never runs, no \<^verbatim>\<open>KeyError\<close> is raised, and the name is silently left out of the
  dictionary that is returned.
\<close>

theorem undefined_area_name_counterexample:
  "get_defined_areas_totals_observed [(''corners'', [A]), (''rest'', [B, C, D])]
     \<lparr>species_spots_1 = [], plate_area_totals_observed = [], plate_area_totals_expected = []\<rparr>
   = Inr []"
  by (simp add: get_defined_areas_totals_observed_def get_area_totals_def remove_unused_def
      AList.restrict_eq)

subsection \<open>The report\<close>

lemma fold_appendChild:
  "fold (\<lambda>(k, v) parent. appendChild parent (f k v)) kvs (Element name attributes children)
   = Element name attributes (children @ map (\<lambda>(k, v). f k v) kvs)"
  by (induction kvs arbitrary: children) (auto simp: case_prod_beta)

lemma update_absent: "k \<notin> fst ` set al \<Longrightarrow> AList.update k v al = al @ [(k, v)]"
  by (induction al) auto

lemma fold_update_distinct:
  "distinct (map fst (acc @ kvs))
   \<Longrightarrow> fold (\<lambda>(k, v). AList.update k (f v)) kvs acc = acc @ map (\<lambda>(k, v). (k, f v)) kvs"
proof (induction kvs arbitrary: acc)
  case Nil
  then show ?case by simp
next
  case (Cons kv kvs)
  obtain k v where kv: "kv = (k, v)" by (cases kv)
  from Cons.prems have "k \<notin> fst ` set acc" by (auto simp: kv)
  then have upd: "AList.update k (f v) acc = acc @ [(k, f v)]"
    by (rule update_absent)
  from Cons.prems have "distinct (map fst ((acc @ [(k, f v)]) @ kvs))"
    by (auto simp: kv)
  from Cons.IH [OF this] upd show ?case by (simp add: kv)
qed

lemma localName_plain: "CHR '':'' \<notin> set name \<Longrightarrow> localName name = name"
  by (simp add: localName_def)

lemma read_totals_written:
  "read_totals (map (\<lambda>(area, total). create_element ''area'' [] [(''id'', StrV area)] (Some total)) kvs) acc
   = Inr (fold (\<lambda>(area, total). AList.update area (StrV (strip (py_str total)))) kvs acc)"
  by (induction kvs arbitrary: acc) (auto simp: create_element_def localName_def)

lemma find_append_last:
  "find P xs = None \<Longrightarrow> P x \<Longrightarrow> find P (xs @ [x]) = Some x"
  by (induction xs) (auto split: if_splits)

lemma digits_chars: "set (digits n) \<subseteq> set ''0123456789''"
proof (induction n rule: digits.induct)
  case (1 n)
  have nth: "''0123456789'' ! k \<in> set ''0123456789''" if "k < 10" for k
    using that by (intro nth_mem) simp
  show ?case
  proof (cases "n < 10")
    case True
    with nth [of n] show ?thesis by (subst digits.simps) simp
  next
    case False
    with 1 have "set (digits (n div 10)) \<subseteq> set ''0123456789''" by simp
    moreover have "''0123456789'' ! (n mod 10) \<in> set ''0123456789''"
      by (rule nth) simp
    ultimately show ?thesis
      using False by (subst digits.simps) simp
  qed
qed

lemma digits_nonempty: "digits n \<noteq> []"
  by (subst digits.simps) simp

lemma strip_no_space:
  assumes "\<forall>c \<in> set s. \<not> isspace c"
  shows "strip s = s"
proof (cases "s = []")
  case True
  then show ?thesis by (simp add: strip_def)
next
  case False
  with assms have "\<not> isspace (hd s)" "\<not> isspace (hd (rev s))"
    by (simp_all add: hd_rev)
  then have "dropWhile isspace s = s" "dropWhile isspace (rev s) = rev s"
    by (simp_all add: dropWhile_eq_self_iff)
  then show ?thesis by (simp add: strip_def)
qed

lemma digit_no_space: "c \<in> set ''0123456789'' \<Longrightarrow> \<not> isspace c"
proof -
  have "list_all (\<lambda>c. \<not> isspace c) ''0123456789''"
    by (simp add: isspace_def)
  then show "c \<in> set ''0123456789'' \<Longrightarrow> \<not> isspace c"
    unfolding list_all_iff by blast
qed

lemma digits_no_space: "c \<in> set (digits n) \<Longrightarrow> \<not> isspace c"
  using digits_chars [of n] digit_no_space by blast

lemma strip_py_str_int: "strip (py_str (IntV i)) = py_str (IntV i)"
proof (rule strip_no_space)
  have minus: "\<not> isspace CHR ''-''"
    by (simp add: isspace_def)
  show "\<forall>c \<in> set (py_str (IntV i)). \<not> isspace c"
  proof (cases "i < 0")
    case True
    with minus digits_no_space [of _ "nat (- i)"] show ?thesis by auto
  next
    case False
    with digits_no_space [of _ "nat i"] show ?thesis by auto
  qed
qed

text \<open>
  What the reader returns after the writer. Writing a dictionary of totals into a report
  and reading it back gives a dictionary with the same keys in which the value of a key
  is a string: the text \<^verbatim>\<open>str(total)\<close> of the total written, stripped of the whitespace
  around it. For an integer total that is its decimal numeral.
\<close>

lemma area_totals_observed_written_read:
  assumes "distinct (map fst totals_observed)"
    and "get_element (Element name attributes children) ''area_totals_observed'' = None"
  shows "get_area_totals_observed
           (set_area_totals_observed (Element name attributes children) totals_observed)
         = Inr (Some (map (\<lambda>(area, total). (area, StrV (strip (py_str total)))) totals_observed))
       \<and> strip (py_str (IntV i)) = py_str (IntV i)"
proof -
  let ?areas = "map (\<lambda>(area, total). create_element ''area'' [] [(''id'', StrV area)] (Some total))
                  totals_observed"
  let ?elem = "Element ''area_totals_observed'' [] ?areas"
  have written: "set_area_totals_observed (Element name attributes children) totals_observed
                 = Element name attributes (children @ [?elem])"
    by (simp add: set_area_totals_observed_def fold_appendChild create_element_def [of _ _ _ None])
  have "is_element ''area_totals_observed'' ?elem"
    by (simp add: localName_def)
  with assms(2) have found:
    "get_element (Element name attributes (children @ [?elem])) ''area_totals_observed'' = Some ?elem"
    by (simp add: get_element_def find_append_last)
  have "read_totals ?areas []
        = Inr (map (\<lambda>(area, total). (area, StrV (strip (py_str total)))) totals_observed)"
    using fold_update_distinct [of "[]" totals_observed "\<lambda>total. StrV (strip (py_str total))"] assms(1)
    by (simp add: read_totals_written)
  with written found show ?thesis
    by (simp add: get_area_totals_observed_def strip_py_str_int del: py_str.simps)
qed

lemma area_totals_observed_written_read_example:
  "distinct (map fst [(''area1'', IntV 27), (''area2'', IntV 75), (''area3'', IntV 52)])
   \<and> get_element new_report ''area_totals_observed'' = None
   \<and> get_area_totals_observed
        (set_area_totals_observed new_report
           [(''area1'', IntV 27), (''area2'', IntV 75), (''area3'', IntV 52)])
      = Inr (Some [(''area1'', StrV ''27''), (''area2'', StrV ''75''), (''area3'', StrV ''52'')])"
proof -
  have h1: "distinct (map fst [(''area1'', IntV 27), (''area2'', IntV 75), (''area3'', IntV 52)])"
    by simp
  have h2: "get_element (Element ''setlyze:report''
              [(''xmlns:setlyze'', ''http://www.gimaris.com/setlyze/'')] []) ''area_totals_observed'' = None"
    by (simp add: get_element_def)
  have d: "digits 27 = ''27''" "digits 75 = ''75''" "digits 52 = ''52''"
    by (simp_all add: digits.simps [of 27] digits.simps [of 75] digits.simps [of 52]
        digits.simps [of 2] digits.simps [of 7] digits.simps [of 5])
  from area_totals_observed_written_read [OF h1 h2, of 0] h1 h2 show ?thesis
    by (simp add: new_report_def strip_py_str_int d del: py_str.simps) (simp add: d)
qed

text \<open>
  C9. The claim is a round trip: the totals read back with \<open>get_area_totals_observed\<close>
  are identical to the values written with \<open>set_area_totals_observed\<close>. The docstring of
  the reader says the same, its example dictionary holds numbers. The code does not do
  it: the reader returns the text of each \<^verbatim>\<open>area\<close> element unconverted, so the total 27
  written into a new report comes back as the string \<^verbatim>\<open>'27'\<close>, which is not the integer
  that was written.
\<close>

theorem area_totals_observed_round_trip_fails:
  "get_area_totals_observed (set_area_totals_observed new_report [(''area1'', IntV 27)])
   = Inr (Some [(''area1'', StrV ''27'')])
   \<and> get_area_totals_observed (set_area_totals_observed new_report [(''area1'', IntV 27)])
     \<noteq> Inr (Some [(''area1'', IntV 27)])"
proof -
  have d: "digits 27 = ''27''"
    by (simp add: digits.simps [of 27] digits.simps [of 2])
  have "get_area_totals_observed (set_area_totals_observed new_report [(''area1'', IntV 27)])
        = Inr (Some [(''area1'', StrV ''27'')])"
    by (simp add: get_area_totals_observed_def set_area_totals_observed_def new_report_def
        create_element_def get_element_def localName_def strip_def isspace_def d)
  then show ?thesis by simp
qed

subsection \<open>Random spots for a plate\<close>

lemma random_below_less: "0 < n \<Longrightarrow> random_below g pos n < n"
proof -
  assume "0 < n"
  have "unat (g pos) < 2 ^ 53"
    using unsigned_less [of "g pos"] by simp
  with \<open>0 < n\<close> have "unat (g pos) * n < 2 ^ 53 * n"
    by simp
  then show ?thesis
    unfolding random_below_def by (simp add: less_mult_imp_div_less mult.commute)
qed

lemma swap_remove:
  assumes "j < m" "m \<le> length pool" "distinct (take m pool)"
  shows "distinct (take (m - 1) (pool[j := pool ! (m - 1)]))"
    and "set (take (m - 1) (pool[j := pool ! (m - 1)])) \<subseteq> set (take m pool) - {pool ! j}"
proof -
  let ?q = "take (m - 1) (pool[j := pool ! (m - 1)])"
  have len: "length ?q = m - 1"
    using assms(2) by simp
  have nth: "?q ! t = (if t = j then pool ! (m - 1) else pool ! t)" if "t < m - 1" for t
    using that assms(2) by (simp add: nth_list_update)
  have inj: "pool ! s \<noteq> pool ! t" if "s < m" "t < m" "s \<noteq> t" for s t
    using assms(2,3) that by (auto simp: distinct_conv_nth)
  show "distinct ?q"
    unfolding distinct_conv_nth len
  proof (intro allI impI)
    fix s t assume "s < m - 1" "t < m - 1" "s \<noteq> t"
    then show "?q ! s \<noteq> ?q ! t"
      unfolding nth [OF \<open>s < m - 1\<close>] nth [OF \<open>t < m - 1\<close>]
      using inj [of s t] inj [of "m - 1" t] inj [of s "m - 1"] by auto
  qed
  show "set ?q \<subseteq> set (take m pool) - {pool ! j}"
  proof
    fix x assume "x \<in> set ?q"
    then obtain t where t: "t < m - 1" "x = ?q ! t"
      using len by (metis in_set_conv_nth)
    have x: "x = (if t = j then pool ! (m - 1) else pool ! t)"
      using t nth by simp
    have "x \<noteq> pool ! j"
      unfolding x using t(1) inj [of "m - 1" j] inj [of t j] assms(1) by auto
    moreover have "x \<in> set (take m pool)"
    proof -
      have "pool ! s \<in> set (take m pool)" if "s < m" for s
        using that assms(2) by (metis in_set_conv_nth length_take min.absorb2 nth_take)
      from this [of "m - 1"] this [of t] t(1) show ?thesis unfolding x by auto
    qed
    ultimately show "x \<in> set (take m pool) - {pool ! j}" by simp
  qed
qed

lemma sample_pool_props:
  assumes "todo \<le> n - i" "n - i \<le> length pool" "distinct (take (n - i) pool)"
  shows "length (fst (sample_pool g n i pool todo pos)) = todo
       \<and> distinct (fst (sample_pool g n i pool todo pos))
       \<and> set (fst (sample_pool g n i pool todo pos)) \<subseteq> set (take (n - i) pool)
       \<and> snd (sample_pool g n i pool todo pos) = pos + todo"
  using assms
proof (induction todo arbitrary: i pool pos)
  case 0
  then show ?case by simp
next
  case (Suc todo)
  let ?m = "n - i"
  let ?j = "random_below g pos ?m"
  let ?pool = "pool[?j := pool ! (n - Suc i)]"
  let ?rest = "sample_pool g n (Suc i) ?pool todo (Suc pos)"
  from Suc.prems(1) have m: "0 < ?m" by simp
  then have j: "?j < ?m" by (rule random_below_less)
  have m1: "?m - 1 = n - Suc i" by simp
  note sr = swap_remove [OF j Suc.prems(2,3), unfolded m1]
  have "todo \<le> n - Suc i"
    using Suc.prems(1) by simp
  moreover have "n - Suc i \<le> length ?pool"
    using Suc.prems(2) by simp
  ultimately have
    "length (fst ?rest) = todo \<and> distinct (fst ?rest)
     \<and> set (fst ?rest) \<subseteq> set (take (n - Suc i) ?pool) \<and> snd ?rest = Suc pos + todo"
    using sr(1) by (rule Suc.IH)
  then have ih:
    "length (fst ?rest) = todo" "distinct (fst ?rest)"
    "set (fst ?rest) \<subseteq> set (take (n - Suc i) ?pool)" "snd ?rest = Suc pos + todo"
    by blast+
  have here: "pool ! ?j \<in> set (take ?m pool)"
    using j Suc.prems(2) by (metis in_set_conv_nth length_take min.absorb2 nth_take)
  have unfold: "sample_pool g n i pool (Suc todo) pos = (pool ! ?j # fst ?rest, snd ?rest)"
    by (simp only: sample_pool.simps Let_def case_prod_beta m1)
  have sub: "set (fst ?rest) \<subseteq> set (take ?m pool) - {pool ! ?j}"
    using ih(3) sr(2) by (rule subset_trans)
  show ?case
    unfolding unfold fst_conv snd_conv
  proof (intro conjI)
    show "length (pool ! ?j # fst ?rest) = Suc todo"
      using ih(1) by simp
    show "distinct (pool ! ?j # fst ?rest)"
      using ih(2) sub by auto
    show "set (pool ! ?j # fst ?rest) \<subseteq> set (take ?m pool)"
      using here sub by auto
    show "snd ?rest = pos + Suc todo"
      using ih(4) by simp
  qed
qed

lemma draw_unselected_fair:
  assumes "random_below g (pos + d) n \<notin> set selected"
  shows "\<exists>p. pos \<le> p \<and> random_below g p n \<notin> set selected
           \<and> draw_unselected g n selected pos = Some (random_below g p n, Suc p)"
  using assms
proof (induction d arbitrary: pos)
  case 0
  then show ?case
    by (intro exI [of _ pos]) (subst draw_unselected.simps, simp)
next
  case (Suc d)
  show ?case
  proof (cases "random_below g pos n \<in> set selected")
    case False
    then show ?thesis
      by (intro exI [of _ pos]) (subst draw_unselected.simps, simp)
  next
    case True
    from Suc.prems have "random_below g (Suc pos + d) n \<notin> set selected" by simp
    from Suc.IH [OF this] obtain p where p: "Suc pos \<le> p"
      "random_below g p n \<notin> set selected"
      "draw_unselected g n selected (Suc pos) = Some (random_below g p n, Suc p)"
      by blast
    from True p show ?thesis
      by (intro exI [of _ p]) (subst draw_unselected.simps, simp)
  qed
qed

lemma unselected_index:
  assumes "length selected < n"
  shows "\<exists>v < n. v \<notin> set selected"
proof (rule ccontr)
  assume "\<not> (\<exists>v < n. v \<notin> set selected)"
  then have "{..<n} \<subseteq> set selected" by auto
  then have "card {..<n} \<le> card (set selected)"
    by (intro card_mono) simp_all
  also have "\<dots> \<le> length selected" by (rule card_length)
  finally show False using assms by simp
qed

lemma sample_set_props:
  assumes "fair g (length population)" "distinct population"
    and "length selected + todo \<le> length population"
  shows "\<exists>result pos'. sample_set g population selected todo pos = Some (result, pos')
           \<and> length result = todo \<and> distinct result
           \<and> set result \<subseteq> {population ! j | j. j < length population \<and> j \<notin> set selected}"
  using assms(3)
proof (induction todo arbitrary: selected pos)
  case 0
  then show ?case by simp
next
  case (Suc todo)
  let ?n = "length population"
  from Suc.prems have "length selected < ?n" by simp
  from unselected_index [OF this] obtain v where v: "v < ?n" "v \<notin> set selected" by blast
  from assms(1) v(1) obtain d where "random_below g (pos + d) ?n = v"
    unfolding fair_def by blast
  with v(2) have "random_below g (pos + d) ?n \<notin> set selected" by simp
  from draw_unselected_fair [OF this] obtain p where p:
    "random_below g p ?n \<notin> set selected"
    "draw_unselected g ?n selected pos = Some (random_below g p ?n, Suc p)"
    by blast
  let ?j = "random_below g p ?n"
  from v(1) have "0 < ?n" by linarith
  then have j: "?j < ?n" by (rule random_below_less)
  from Suc.prems have "length (?j # selected) + todo \<le> ?n" by simp
  from Suc.IH [OF this, of "Suc p"] obtain result pos' where r:
    "sample_set g population (?j # selected) todo (Suc p) = Some (result, pos')"
    "length result = todo" "distinct result"
    "set result \<subseteq> {population ! i | i. i < ?n \<and> i \<notin> set (?j # selected)}"
    by blast
  have "population ! ?j \<notin> set result"
  proof
    assume "population ! ?j \<in> set result"
    with r(4) obtain i where "i < ?n" "i \<noteq> ?j" "population ! ?j = population ! i"
      by auto
    with j assms(2) show False
      by (simp add: nth_eq_iff_index_eq)
  qed
  moreover have "set (population ! ?j # result)
                 \<subseteq> {population ! i | i. i < ?n \<and> i \<notin> set selected}"
    using r(4) j p(1) by auto
  ultimately show ?case
    using p(2) r(1,2,3) by simp
qed

lemma setsize_small: "k \<le> 5 \<Longrightarrow> setsize k = 21"
  by (simp add: setsize_def)

lemma setsize_large: "5 < k \<Longrightarrow> 25 \<le> setsize k"
proof -
  assume k: "5 < k"
  then have "ceil_log4 (k * 3) = Suc (ceil_log4 ((k * 3 + 3) div 4))"
    by (subst ceil_log4.simps) simp
  then have "(4::nat) \<le> 4 ^ ceil_log4 (k * 3)"
    by simp
  with k show ?thesis by (simp add: setsize_def)
qed

lemma sample_set_one:
  assumes "0 < length population"
  shows "sample_set g population [] (Suc 0) pos
         = Some ([population ! random_below g pos (length population)], Suc pos)"
  by (simp add: draw_unselected.simps [of g "length population" "[]" pos])

lemma get_random_for_plate_pool:
  assumes "5 < n" "n \<le> 25"
  shows "\<exists>spots pos'. get_random_for_plate g n pos = Some (Inr (spots, pos'))
           \<and> length spots = nat n \<and> distinct spots \<and> set spots \<subseteq> {1..25}"
proof -
  let ?r = "sample_pool g 25 0 [1..25] (nat n) pos"
  from assms have "25 \<le> setsize (nat n)"
    by (intro setsize_large) simp
  with assms have "get_random_for_plate g n pos = Some (Inr ?r)"
    by (simp add: get_random_for_plate_def sample_def)
  moreover have "length (fst ?r) = nat n \<and> distinct (fst ?r)
                 \<and> set (fst ?r) \<subseteq> set (take (25 - 0) [1..25]) \<and> snd ?r = pos + nat n"
    by (rule sample_pool_props) (use assms in simp_all)
  moreover have "?r = (fst ?r, snd ?r)"
    by simp
  ultimately show ?thesis
    by (intro exI [of _ "fst ?r"] exI [of _ "snd ?r"]) (simp del: prod.collapse)
qed

lemma get_random_for_plate_set:
  assumes "0 \<le> n" "n \<le> 5" "2 \<le> n \<longrightarrow> fair g 25"
  shows "\<exists>spots pos'. get_random_for_plate g n pos = Some (Inr (spots, pos'))
           \<and> length spots = nat n \<and> distinct spots \<and> set spots \<subseteq> {1..25}"
proof -
  have branch: "get_random_for_plate g n pos = map_option Inr (sample_set g [1..25] [] (nat n) pos)"
    using assms(1,2) by (simp add: get_random_for_plate_def sample_def setsize_small)
  have nth: "[1..25] ! j \<in> {1..25}" if "j < 25" for j :: nat
  proof -
    from that have "[1..25] ! j \<in> set [1..25]"
      by (intro nth_mem) simp
    then show ?thesis by simp
  qed
  consider "nat n = 0" | "nat n = Suc 0" | "2 \<le> n"
    using assms(1) by fastforce
  then show ?thesis
  proof cases
    case 1
    then show ?thesis by (simp add: branch)
  next
    case 2
    have "random_below g pos 25 < 25"
      by (rule random_below_less) simp
    from nth [OF this] have spot: "[1..25] ! random_below g pos 25 \<in> {1..25::int}" .
    have one: "sample_set g [1..25::int] [] (nat n) pos
               = Some ([[1..25] ! random_below g pos 25], Suc pos)"
      unfolding 2 using sample_set_one [of "[1..25::int]" g pos] by simp
    show ?thesis
      unfolding branch one using spot 2 by simp
  next
    case 3
    with assms(3) have "fair g (length [1..25::int])" by simp
    moreover have "distinct [1..25::int]" by simp
    moreover have "length ([]::nat list) + nat n \<le> length [1..25::int]"
      using assms(2) by simp
    ultimately obtain result pos' where r:
      "sample_set g [1..25] [] (nat n) pos = Some (result, pos')"
      "length result = nat n" "distinct result"
      "set result \<subseteq> {[1..25] ! j | j. j < length [1..25::int] \<and> j \<notin> set []}"
      using sample_set_props [of g "[1..25]" "[]" "nat n" pos] by blast
    from r(4) nth have "set result \<subseteq> {1..25}"
      by auto
    with r(1,2,3) show ?thesis
      by (simp add: branch)
  qed
qed

lemma random_below_cycle: "random_below cycle_rng pos 25 = pos mod 25"
proof -
  let ?v = "pos mod 25"
  have v: "?v < 25" by simp
  then have small: "?v * 360287970189640 < 2 ^ 53"
    by simp
  have "unat (cycle_rng pos) = ?v * 360287970189640"
    unfolding cycle_rng_def unat_of_nat using small by simp
  moreover have "?v * 360287970189640 * 25 div 2 ^ 53 = ?v"
    using v by simp
  ultimately show ?thesis
    by (simp add: random_below_def)
qed

lemma fair_cycle: "fair cycle_rng 25"
  unfolding fair_def random_below_cycle
proof (intro allI impI)
  fix pos v :: nat
  assume v: "v < 25"
  define q r where "q = pos div 25" and "r = pos mod 25"
  have pos: "pos = 25 * q + r" and r: "r < 25"
    by (simp_all add: q_def r_def)
  have "pos + (v + (25 - r)) = v + 25 * (q + 1)"
    by (subst pos) (use r in simp)
  then have "pos + (v + (25 - pos mod 25)) = v + 25 * (pos div 25 + 1)"
    unfolding q_def r_def .
  then have "(pos + (v + (25 - pos mod 25))) mod 25 = v"
    using v by (simp only: mod_mult_self2 mod_less)
  then show "\<exists>d. (pos + d) mod 25 = v" by blast
qed

text \<open>
  C5. For every integer \<open>n\<close> from 0 to 25, \<open>get_random_for_plate\<close> returns a list of
  exactly \<open>n\<close> integers, no two of them equal, each from 1 to 25; for 25 the list holds
  every number from 1 to 25. For \<open>n\<close> from 2 to 5 the library draws again until the index
  is new, and the call returns on every generator that is fair; for the other \<open>n\<close> it
  returns on every generator.
\<close>

theorem get_random_for_plate_spots:
  assumes "0 \<le> n" "n \<le> 25" "2 \<le> n \<and> n \<le> 5 \<longrightarrow> fair g 25"
  shows "\<exists>spots pos'. get_random_for_plate g n pos = Some (Inr (spots, pos'))
           \<and> length spots = nat n \<and> distinct spots \<and> set spots \<subseteq> {1..25}
           \<and> (n = 25 \<longrightarrow> set spots = {1..25})"
proof -
  obtain spots pos' where s:
    "get_random_for_plate g n pos = Some (Inr (spots, pos'))"
    "length spots = nat n" "distinct spots" "set spots \<subseteq> {1..25}"
  proof (cases "n \<le> 5")
    case True
    with assms(1,3) get_random_for_plate_set [of n g pos] that show ?thesis by blast
  next
    case False
    with assms(2) get_random_for_plate_pool [of n g pos] that show ?thesis by force
  qed
  have "set spots = {1..25}" if "n = 25"
  proof (rule card_subset_eq)
    show "finite {1..25::int}" by simp
    show "set spots \<subseteq> {1..25}" by (rule s(4))
    show "card (set spots) = card {1..25::int}"
      using s(2,3) that by (simp add: distinct_card)
  qed
  with s show ?thesis by blast
qed

theorem get_random_for_plate_spots_witness:
  "(0::int) \<le> 3 \<and> (3::int) \<le> 25 \<and> fair cycle_rng 25
   \<and> get_random_for_plate cycle_rng 3 0 = Some (Inr ([1, 2, 3], 3))"
proof -
  have three: "nat 3 = Suc (Suc (Suc 0))" by simp
  have pop: "[1..25] ! 0 = (1::int)" "[1..25] ! Suc 0 = (2::int)" "[1..25] ! 2 = (3::int)"
    by (simp_all add: upto_rec_numeral)
  have draw:
    "draw_unselected cycle_rng 25 [] 0 = Some (0, Suc 0)"
    "draw_unselected cycle_rng 25 [0] (Suc 0) = Some (Suc 0, 2)"
    "draw_unselected cycle_rng 25 [Suc 0, 0] 2 = Some (2, 3)"
    by (subst draw_unselected.simps, simp add: random_below_cycle)+
  have "sample_set cycle_rng [1..25] [] (Suc (Suc (Suc 0))) 0 = Some ([1, 2, 3], 3)"
    by (simp add: draw pop)
  then have "sample_set cycle_rng [1..25] [] (nat 3) 0 = Some ([1, 2, 3], 3)"
    by (simp only: three)
  then have "get_random_for_plate cycle_rng 3 0 = Some (Inr ([1, 2, 3], 3))"
    by (simp add: get_random_for_plate_def sample_def setsize_small del: sample_set.simps)
  with get_random_for_plate_spots [of 3 cycle_rng 0] fair_cycle show ?thesis
    by simp
qed

end
